theory Spec2Isabelle
  imports
    Complex_Main
    "HOL-Library.Log_Nat"
    "HOL-Library.Char_ord"
    "HOL-Library.List_Lexorder"
begin

section \<open>videoconvert.py: a shallow embedding\<close>

text \<open>
  The program is one Python file: pure helpers (\<open>is_relative_to\<close>, \<open>ffmpeg_command\<close>,
  \<open>thumbnail_command\<close>, \<open>build_thumbnail_points\<close>), two helpers that touch the outside
  world (\<open>find_mp4_files\<close>, \<open>ffprobe_duration_seconds\<close>) and the driver \<open>main\<close>.
  Each is translated below under its own name. Effects are made explicit: everything
  \<open>main\<close> does to the outside world is appended to a trace of events, and everything
  it reads from the outside world comes from an \<open>env\<close> record.
\<close>

subsection \<open>Python values: exceptions, floats, text\<close>

datatype py_error = ZeroDivisionError | OverflowError | ValueError

text \<open>
  A Python \<open>float\<close> is an IEEE 754 binary64 number. A finite one is kept as the rational
  it denotes; the two zeros are not told apart (no code path of the program depends on the
  sign of a zero). Arithmetic rounds to the nearest representable number, ties to even.
\<close>

datatype pyfloat = Finite rat | PosInf | NegInf | NaN

definition round_half_even :: "rat \<Rightarrow> int" where
  "round_half_even x =
     (let f = \<lfloor>x\<rfloor>; d = x - of_int f
      in if d < 1 / 2 then f else if 1 / 2 < d then f + 1 else if even f then f else f + 1)"

definition ilog2 :: "rat \<Rightarrow> int" where
  \<comment> \<open>\<open>\<lfloor>log\<^sub>2 q\<rfloor>\<close> for \<open>q > 0\<close>, from the bit lengths of numerator and denominator\<close>
  "ilog2 q =
     (let (a, b) = quotient_of q; d = bitlen a - bitlen b
      in if 2 powi d \<le> q then d else d - 1)"

definition binary64_round :: "rat \<Rightarrow> rat" where
  \<comment> \<open>53 significant bits, least exponent \<open>-1022\<close> (below it the numbers are subnormal)\<close>
  "binary64_round q =
     (if q = 0 then 0
      else let e = max (ilog2 \<bar>q\<bar>) (- 1022); ulp = 2 powi (e - 52)
           in of_int (round_half_even (q / ulp)) * ulp)"

definition binary64_max :: rat where
  "binary64_max = 2 ^ 1024 - 2 ^ 971"

definition to_float :: "rat \<Rightarrow> pyfloat" where
  "to_float q =
     (let r = binary64_round q
      in if binary64_max < r then PosInf else if r < - binary64_max then NegInf else Finite r)"

definition int_truediv :: "int \<Rightarrow> int \<Rightarrow> py_error + pyfloat" where
  \<comment> \<open>\<open>a / b\<close> on two Python ints: the correctly rounded quotient\<close>
  "int_truediv a b =
     (if b = 0 then Inl ZeroDivisionError
      else case to_float (of_int a / of_int b) of
             Finite r \<Rightarrow> Inr (Finite r)
           | _ \<Rightarrow> Inl OverflowError)"

definition float_of_int :: "int \<Rightarrow> py_error + pyfloat" where
  \<comment> \<open>the conversion Python applies to an int operand of a mixed int/float operation\<close>
  "float_of_int i =
     (case to_float (of_int i) of
        Finite r \<Rightarrow> Inr (Finite r)
      | _ \<Rightarrow> Inl OverflowError)"

fun float_truediv :: "pyfloat \<Rightarrow> pyfloat \<Rightarrow> py_error + pyfloat" where
  "float_truediv x (Finite b) =
     (if b = 0 then Inl ZeroDivisionError
      else case x of
             Finite a \<Rightarrow> Inr (to_float (a / b))
           | PosInf \<Rightarrow> Inr (if 0 < b then PosInf else NegInf)
           | NegInf \<Rightarrow> Inr (if 0 < b then NegInf else PosInf)
           | NaN \<Rightarrow> Inr NaN)"
| "float_truediv (Finite a) PosInf = Inr (Finite 0)"
| "float_truediv (Finite a) NegInf = Inr (Finite 0)"
| "float_truediv x y = Inr NaN"

fun float_mul :: "pyfloat \<Rightarrow> pyfloat \<Rightarrow> pyfloat" where
  "float_mul (Finite a) (Finite b) = to_float (a * b)"
| "float_mul NaN y = NaN"
| "float_mul x NaN = NaN"
| "float_mul (Finite a) PosInf = (if a = 0 then NaN else if 0 < a then PosInf else NegInf)"
| "float_mul (Finite a) NegInf = (if a = 0 then NaN else if 0 < a then NegInf else PosInf)"
| "float_mul PosInf (Finite b) = (if b = 0 then NaN else if 0 < b then PosInf else NegInf)"
| "float_mul NegInf (Finite b) = (if b = 0 then NaN else if 0 < b then NegInf else PosInf)"
| "float_mul PosInf PosInf = PosInf"
| "float_mul PosInf NegInf = NegInf"
| "float_mul NegInf PosInf = NegInf"
| "float_mul NegInf NegInf = PosInf"

fun float_le :: "pyfloat \<Rightarrow> pyfloat \<Rightarrow> bool" where
  "float_le NaN y = False"
| "float_le x NaN = False"
| "float_le NegInf y = True"
| "float_le x PosInf = True"
| "float_le (Finite a) (Finite b) = (a \<le> b)"
| "float_le x y = False"


text \<open>
  The conversions between floats and text (\<open>float(s)\<close>, \<open>repr\<close>, the \<open>.Nf\<close> format) are
  library functions whose definitions no property below depends on; they are parameters.
\<close>

record float_text =
  float_repr :: "pyfloat \<Rightarrow> string"
  float_fixed :: "nat \<Rightarrow> pyfloat \<Rightarrow> string"
  float_parse :: "string \<Rightarrow> pyfloat option"

text \<open>Text is a list of 8-bit characters. \<open>str\<close> of an int is its decimal numeral.\<close>

definition digit_char :: "nat \<Rightarrow> char" where
  "digit_char d = char_of (48 + d)"

function str_nat :: "nat \<Rightarrow> string" where
  "str_nat n = (if n < 10 then [digit_char n] else str_nat (n div 10) @ [digit_char (n mod 10)])"
  by pat_completeness auto
termination
  by (relation "measure id") auto

declare str_nat.simps [simp del]

definition str_int :: "int \<Rightarrow> string" where
  "str_int i = (if i < 0 then CHR ''-'' # str_nat (nat (- i)) else str_nat (nat i))"

definition zfill :: "nat \<Rightarrow> string \<Rightarrow> string" where
  "zfill w s = replicate (w - length s) CHR ''0'' @ s"

definition format_02d :: "int \<Rightarrow> string" where
  \<comment> \<open>the format \<open>{i:02d}\<close>: zero padding to width 2, the sign counted in the width\<close>
  "format_02d i =
     (if i < 0 then CHR ''-'' # zfill 1 (str_nat (nat (- i))) else zfill 2 (str_nat (nat i)))"

fun join_str :: "string \<Rightarrow> string list \<Rightarrow> string" where
  "join_str sep [] = []"
| "join_str sep [x] = x"
| "join_str sep (x # y # ys) = x @ sep @ join_str sep (y # ys)"

definition ascii_lower :: "char \<Rightarrow> char" where
  "ascii_lower c =
     (if CHR ''A'' \<le> c \<and> c \<le> CHR ''Z'' then char_of (of_char c + (32 :: nat)) else c)"

definition str_lower :: "string \<Rightarrow> string" where
  "str_lower s = map ascii_lower s"

definition is_space :: "char \<Rightarrow> bool" where
  "is_space c = (of_char c \<in> {9, 10, 11, 12, 13, 28, 29, 30, 31, 32 :: nat})"

definition str_strip :: "string \<Rightarrow> string" where
  "str_strip s = rev (dropWhile is_space (rev (dropWhile is_space s)))"

subsection \<open>Paths (\<open>pathlib.Path\<close>)\<close>

text \<open>
  A path is the list of its components. Paths that stand for locations are absolute and
  symlink-free or not as the environment's \<open>resolve\<close> says; a path relative to a directory
  (as \<open>rel_parent\<close> in \<open>main\<close>) is the list of the remaining components. Two paths compare
  as Python compares \<open>Path\<close> objects: component by component.
\<close>

type_synonym path = "string list"

definition str_path :: "path \<Rightarrow> string" where
  "str_path p = CHR ''/'' # join_str ''/'' p"

definition path_name :: "path \<Rightarrow> string" where
  "path_name p = (if p = [] then [] else last p)"

fun rfind :: "char \<Rightarrow> string \<Rightarrow> nat option" where
  "rfind c [] = None"
| "rfind c (x # xs) =
     (case rfind c xs of
        Some i \<Rightarrow> Some (Suc i)
      | None \<Rightarrow> if x = c then Some 0 else None)"

definition path_suffix :: "path \<Rightarrow> string" where
  \<comment> \<open>\<open>i = name.rfind('.')\<close>; the suffix is \<open>name[i:]\<close> if \<open>0 < i < len(name) - 1\<close>, else empty\<close>
  "path_suffix p =
     (let name = path_name p
      in case rfind CHR ''.'' name of
           None \<Rightarrow> []
         | Some i \<Rightarrow> if 0 < i \<and> i + 1 < length name then drop i name else [])"

definition path_stem :: "path \<Rightarrow> string" where
  "path_stem p =
     (let name = path_name p
      in case rfind CHR ''.'' name of
           None \<Rightarrow> name
         | Some i \<Rightarrow> if 0 < i \<and> i + 1 < length name then take i name else name)"

definition path_parent :: "path \<Rightarrow> path" where
  "path_parent p = butlast p"

fun relative_to :: "path \<Rightarrow> path \<Rightarrow> py_error + path" where
  "relative_to p [] = Inr p"
| "relative_to [] (b # bs) = Inl ValueError"
| "relative_to (x # xs) (b # bs) = (if x = b then relative_to xs bs else Inl ValueError)"

definition is_relative_to :: "path \<Rightarrow> path \<Rightarrow> bool" where
  "is_relative_to p base = (case relative_to p base of Inr _ \<Rightarrow> True | Inl _ \<Rightarrow> False)"

fun split_on :: "char \<Rightarrow> string \<Rightarrow> string list" where
  "split_on c [] = [[]]"
| "split_on c (x # xs) =
     (if x = c then [] # split_on c xs
      else case split_on c xs of
             w # ws \<Rightarrow> (x # w) # ws
           | [] \<Rightarrow> [[x]])"

definition path_parts :: "string \<Rightarrow> path" where
  \<comment> \<open>the components \<open>pathlib\<close> reads from a string: empty and \<open>.\<close> segments are dropped\<close>
  "path_parts s = filter (\<lambda>c. c \<noteq> [] \<and> c \<noteq> ''.'') (split_on CHR ''/'' s)"

definition path_div :: "path \<Rightarrow> string \<Rightarrow> path" where
  \<comment> \<open>\<open>p / s\<close> for a string \<open>s\<close>; a string that starts with \<open>/\<close> replaces \<open>p\<close>\<close>
  "path_div p s = (if s \<noteq> [] \<and> hd s = CHR ''/'' then path_parts s else p @ path_parts s)"

subsection \<open>The outside world\<close>

text \<open>
  The file tree as \<open>pathlib\<close> sees it from the root directory. \<open>glob("*")\<close> lists the entries of a
  directory, \<open>rglob("*")\<close> everything below it.
\<close>

datatype fsnode = RegularFile | Directory "(string \<times> fsnode) list" | OtherNode

fun node_at :: "fsnode \<Rightarrow> path \<Rightarrow> fsnode option" where
  "node_at n [] = Some n"
| "node_at (Directory es) (c # cs) =
     (case map_of es c of None \<Rightarrow> None | Some n \<Rightarrow> node_at n cs)"
| "node_at RegularFile (c # cs) = None"
| "node_at OtherNode (c # cs) = None"

definition path_exists :: "fsnode \<Rightarrow> path \<Rightarrow> bool" where
  "path_exists fs p = (node_at fs p \<noteq> None)"

definition is_dir :: "fsnode \<Rightarrow> path \<Rightarrow> bool" where
  "is_dir fs p = (case node_at fs p of Some (Directory es) \<Rightarrow> True | _ \<Rightarrow> False)"

definition is_file :: "fsnode \<Rightarrow> path \<Rightarrow> bool" where
  "is_file fs p = (node_at fs p = Some RegularFile)"

fun descendants :: "fsnode \<Rightarrow> path list"
  and descendants_of_entries :: "(string \<times> fsnode) list \<Rightarrow> path list" where
  "descendants RegularFile = []"
| "descendants OtherNode = []"
| "descendants (Directory es) = descendants_of_entries es"
| "descendants_of_entries [] = []"
| "descendants_of_entries (e # es) =
     [fst e] # map ((#) (fst e)) (descendants (snd e)) @ descendants_of_entries es"

fun distinct_names :: "fsnode \<Rightarrow> bool"
  and distinct_entries :: "(string \<times> fsnode) list \<Rightarrow> bool" where
  \<comment> \<open>no directory of the tree lists a name twice\<close>
  "distinct_names RegularFile = True"
| "distinct_names OtherNode = True"
| "distinct_names (Directory es) = (distinct (map fst es) \<and> distinct_entries es)"
| "distinct_entries [] = True"
| "distinct_entries (e # es) = (distinct_names (snd e) \<and> distinct_entries es)"

definition glob_star :: "fsnode \<Rightarrow> path \<Rightarrow> path list" where
  "glob_star fs d =
     (case node_at fs d of
        Some (Directory es) \<Rightarrow> map (\<lambda>e. d @ [fst e]) es
      | _ \<Rightarrow> [])"

definition rglob_star :: "fsnode \<Rightarrow> path \<Rightarrow> path list" where
  "rglob_star fs d =
     (case node_at fs d of
        Some n \<Rightarrow> map ((@) d) (descendants n)
      | None \<Rightarrow> [])"

record completed_process =
  returncode :: int
  stdout :: string
  stderr :: string

datatype event =
    Stdout string
  | Stderr string
  | Mkdir path
  | Glob path bool
  | Subprocess "string list"

text \<open>
  What the program reads from its surroundings. The result of a subprocess may depend on
  everything that happened before it (the trace so far) and on its argument vector.
\<close>

record env =
  which_ffmpeg :: bool
  which_ffprobe :: bool
  expanduser_resolve :: "string \<Rightarrow> path"
  resolve :: "path \<Rightarrow> path"
  filesystem :: fsnode
  subprocess_run :: "event list \<Rightarrow> string list \<Rightarrow> completed_process"

record args =
  input_dir :: string
  output_dir :: "string option"
  smaller :: int
  recursive :: bool
  suffix :: string
  crf :: int
  preset :: string
  audio_bitrate :: string
  overwrite :: bool
  dry_run :: bool
  thumbnails :: bool
  thumbnails_only :: bool
  thumbnail_count :: int

subsection \<open>The helpers of the program\<close>

definition find_mp4_files :: "env \<Rightarrow> path \<Rightarrow> path \<Rightarrow> bool \<Rightarrow> path list" where
  "find_mp4_files env input_dir' output_dir' recursive' =
     (let glob_iter = (if recursive' then rglob_star (filesystem env) input_dir'
                       else glob_star (filesystem env) input_dir')
      in sort (filter (\<lambda>candidate.
                 is_file (filesystem env) candidate
               \<and> str_lower (path_suffix candidate) = ''.mp4''
               \<and> \<not> is_relative_to (resolve env candidate) (resolve env output_dir'))
               glob_iter))"

definition ffmpeg_command ::
  "float_text \<Rightarrow> path \<Rightarrow> path \<Rightarrow> pyfloat \<Rightarrow> int \<Rightarrow> string \<Rightarrow> string \<Rightarrow> bool \<Rightarrow> string list" where
  "ffmpeg_command lib source destination scale_factor crf' preset' audio_bitrate' overwrite' =
     (let scale_expr = ''scale=trunc(iw*'' @ float_repr lib scale_factor @ ''/2)*2:''
                     @ ''trunc(ih*'' @ float_repr lib scale_factor @ ''/2)*2''
      in [''ffmpeg'',
          ''-hide_banner'',
          ''-loglevel'',
          ''error'',
          if overwrite' then ''-y'' else ''-n'',
          ''-i'',
          str_path source,
          ''-vf'',
          scale_expr,
          ''-c:v'',
          ''libx264'',
          ''-preset'',
          preset',
          ''-crf'',
          str_int crf',
          ''-c:a'',
          ''aac'',
          ''-b:a'',
          audio_bitrate',
          ''-movflags'',
          ''+faststart'',
          str_path destination])"

definition ffprobe_command :: "path \<Rightarrow> string list" where
  "ffprobe_command source =
     [''ffprobe'',
      ''-v'',
      ''error'',
      ''-show_entries'',
      ''format=duration'',
      ''-of'',
      ''default=noprint_wrappers=1:nokey=1'',
      str_path source]"

definition thumbnail_command ::
  "float_text \<Rightarrow> path \<Rightarrow> path \<Rightarrow> pyfloat \<Rightarrow> bool \<Rightarrow> string list" where
  "thumbnail_command lib source destination timestamp_seconds overwrite' =
     [''ffmpeg'',
      ''-hide_banner'',
      ''-loglevel'',
      ''error'',
      if overwrite' then ''-y'' else ''-n'',
      ''-ss'',
      float_fixed lib 3 timestamp_seconds,
      ''-i'',
      str_path source,
      ''-frames:v'',
      ''1'',
      ''-q:v'',
      ''2'',
      str_path destination]"

fun try_map :: "('a \<Rightarrow> 'e + 'b) \<Rightarrow> 'a list \<Rightarrow> 'e + 'b list" where
  "try_map f [] = Inr []"
| "try_map f (x # xs) =
     (case f x of
        Inl e \<Rightarrow> Inl e
      | Inr y \<Rightarrow> (case try_map f xs of Inl e \<Rightarrow> Inl e | Inr ys \<Rightarrow> Inr (y # ys)))"

definition build_thumbnail_points :: "int \<Rightarrow> py_error + (int \<times> pyfloat) list" where
  \<comment> \<open>the comprehension over \<open>range(1, count + 1)\<close>; a division that raises ends it\<close>
  "build_thumbnail_points count =
     try_map (\<lambda>index. case int_truediv index (count + 1) of
                         Inl e \<Rightarrow> Inl e
                       | Inr fraction \<Rightarrow> Inr (index, fraction))
             [1..count]"

definition fraction_of :: "int \<Rightarrow> int \<Rightarrow> rat" where
  \<comment> \<open>the binary64 number nearest to \<open>index / (count + 1)\<close>\<close>
  "fraction_of count index = binary64_round (of_int index / of_int (count + 1))"


subsection \<open>The driver\<close>

text \<open>
  The state that \<open>main\<close> threads through its loops: the events so far, oldest first,
  and the two failure counters.
\<close>

record run_state =
  trace :: "event list"
  conversion_failures :: int
  thumbnail_failures :: int

definition emit :: "event \<Rightarrow> run_state \<Rightarrow> run_state" where
  "emit e s = s\<lparr>trace := trace s @ [e]\<rparr>"

definition ffprobe_duration_seconds ::
  "env \<Rightarrow> float_text \<Rightarrow> path \<Rightarrow> run_state \<Rightarrow> pyfloat option \<times> run_state" where
  "ffprobe_duration_seconds env lib source s =
     (let cmd = ffprobe_command source;
          result = subprocess_run env (trace s) cmd;
          s' = emit (Subprocess cmd) s
      in if returncode result \<noteq> 0 then (None, s')
         else let value = str_strip (stdout result)
              in if value = [] then (None, s') else (float_parse lib value, s'))"

definition do_thumbnails :: "args \<Rightarrow> bool" where
  "do_thumbnails a = (thumbnails a \<or> thumbnails_only a)"

definition do_video_conversion :: "args \<Rightarrow> bool" where
  "do_video_conversion a = (\<not> thumbnails_only a)"

text \<open>
  The local variables of \<open>main\<close> that are fixed once the options are validated
  (lines 248 to 267): \<open>input_dir\<close>, \<open>output_dir\<close> and \<open>scale_factor\<close>.
\<close>

record resolved =
  res_input_dir :: path
  res_output_dir :: path
  res_scale_factor :: pyfloat

datatype resolution = ConfigError "string list" | Resolved resolved | ResolveRaised py_error

definition resolve_config :: "env \<Rightarrow> args \<Rightarrow> resolution" where
  \<comment> \<open>lines 236 to 267; \<open>ConfigError\<close> carries the lines printed to stderr before \<open>return 2\<close>\<close>
  "resolve_config env a =
     (if \<not> which_ffmpeg env then
        ConfigError [''Error: ffmpeg is not installed or not in PATH.'',
                     ''Install on macOS with: brew install ffmpeg'']
      else if do_thumbnails a \<and> \<not> which_ffprobe env then
        ConfigError [''Error: ffprobe is not installed or not in PATH.'',
                     ''Install on macOS with: brew install ffmpeg'']
      else if do_thumbnails a \<and> thumbnail_count a < 1 then
        ConfigError [''Error: --thumbnail-count must be at least 1.'']
      else
        let input_dir' = expanduser_resolve env (input_dir a)
        in if \<not> path_exists (filesystem env) input_dir' \<or> \<not> is_dir (filesystem env) input_dir' then
             ConfigError [''Error: input directory does not exist: '' @ str_path input_dir']
           else
             let output_dir' = (case output_dir a of
                                  Some given \<Rightarrow> expanduser_resolve env given
                                | None \<Rightarrow> resolve env (path_div input_dir' ''converted''))
             in if do_video_conversion a then
                  if smaller a \<le> 0 \<or> smaller a \<ge> 100 then
                    ConfigError [''Error: --smaller must be between 1 and 99.'']
                  else
                    case (case float_of_int (100 - smaller a) of
                            Inl e \<Rightarrow> Inl e
                          | Inr x \<Rightarrow> float_truediv x (Finite 100)) of
                      Inl e \<Rightarrow> ResolveRaised e
                    | Inr scale_factor \<Rightarrow>
                        if float_le scale_factor (Finite 0) then
                          ConfigError [''Error: resulting scale factor must be > 0.'']
                        else
                          Resolved \<lparr>res_input_dir = input_dir', res_output_dir = output_dir',
                                    res_scale_factor = scale_factor\<rparr>
                else
                  Resolved \<lparr>res_input_dir = input_dir', res_output_dir = output_dir',
                            res_scale_factor = Finite 0\<rparr>)"

definition earlier_checks_pass :: "env \<Rightarrow> args \<Rightarrow> bool" where
  \<comment> \<open>none of the checks of lines 236 to 251 ends the run\<close>
  "earlier_checks_pass env a =
     (which_ffmpeg env
      \<and> (if do_thumbnails a then which_ffprobe env \<and> 1 \<le> thumbnail_count a else True)
      \<and> path_exists (filesystem env) (expanduser_resolve env (input_dir a))
      \<and> is_dir (filesystem env) (expanduser_resolve env (input_dir a)))"

definition resolved_output_dir :: "env \<Rightarrow> args \<Rightarrow> path" where
  \<comment> \<open>lines 253 to 257\<close>
  "resolved_output_dir env a =
     (case output_dir a of
        Some given \<Rightarrow> expanduser_resolve env given
      | None \<Rightarrow> resolve env (path_div (expanduser_resolve env (input_dir a)) ''converted''))"

definition convert_source ::
  "env \<Rightarrow> float_text \<Rightarrow> args \<Rightarrow> resolved \<Rightarrow> path \<Rightarrow> path \<Rightarrow> run_state \<Rightarrow> run_state" where
  \<comment> \<open>lines 297 to 326, the body of \<open>if do_video_conversion\<close>\<close>
  "convert_source env lib a r rel_parent source s =
     (let target_parent = res_output_dir r @ rel_parent;
          s1 = emit (Mkdir target_parent) s;
          destination = path_div target_parent (path_stem source @ suffix a @ path_suffix source);
          cmd = ffmpeg_command lib source destination (res_scale_factor r) (crf a) (preset a)
                  (audio_bitrate a) (overwrite a);
          s2 = emit (Stdout (''  convert -> '' @ str_path destination)) s1
      in if dry_run a then emit (Stdout (''  '' @ join_str '' '' cmd)) s2
         else
           let result = subprocess_run env (trace s2) cmd;
               s3 = emit (Subprocess cmd) s2
           in if returncode result \<noteq> 0 then
                let s4 = emit (Stderr (''  convert failed ('' @ str_int (returncode result) @ '')''))
                           (s3\<lparr>conversion_failures := conversion_failures s3 + 1\<rparr>)
                in if str_strip (stderr result) \<noteq> [] then
                     emit (Stderr (''  '' @ str_strip (stderr result))) s4
                   else s4
              else s3)"

definition thumb_name :: "path \<Rightarrow> int \<Rightarrow> string" where
  \<comment> \<open>line 342, the file name \<open>f"{source.stem}_thumb_{thumb_index:02d}.jpg"\<close>\<close>
  "thumb_name source thumb_index =
     path_stem source @ ''_thumb_'' @ format_02d thumb_index @ ''.jpg''"

fun thumbnail_loop ::
  "env \<Rightarrow> float_text \<Rightarrow> args \<Rightarrow> path \<Rightarrow> path \<Rightarrow> pyfloat \<Rightarrow> (int \<times> pyfloat) list
     \<Rightarrow> run_state \<Rightarrow> run_state" where
  \<comment> \<open>lines 339 to 371, the loop over \<open>thumbnail_points\<close>\<close>
  "thumbnail_loop env lib a source thumb_parent duration [] s = s"
| "thumbnail_loop env lib a source thumb_parent duration ((thumb_index, fraction) # rest) s =
     (let timestamp = float_mul duration fraction;
          thumb_pct = float_mul fraction (Finite 100);
          thumb_path = path_div thumb_parent (thumb_name source thumb_index);
          thumb_cmd = thumbnail_command lib source thumb_path timestamp (overwrite a);
          s1 = emit (Stdout (''  thumb '' @ str_int thumb_index @ ''/'' @ str_int (thumbnail_count a)
                             @ '' ('' @ float_fixed lib 1 thumb_pct @ ''%) -> ''
                             @ str_path thumb_path)) s
      in if dry_run a then
           thumbnail_loop env lib a source thumb_parent duration rest
             (emit (Stdout (''  '' @ join_str '' '' thumb_cmd)) s1)
         else
           let thumb_result = subprocess_run env (trace s1) thumb_cmd;
               s2 = emit (Subprocess thumb_cmd) s1;
               s3 = (if returncode thumb_result \<noteq> 0 then
                       let s4 = emit (Stderr (''  thumbnail '' @ str_int thumb_index @ '' failed (''
                                              @ str_int (returncode thumb_result) @ '')''))
                                  (s2\<lparr>thumbnail_failures := thumbnail_failures s2 + 1\<rparr>)
                       in if str_strip (stderr thumb_result) \<noteq> [] then
                            emit (Stderr (''  '' @ str_strip (stderr thumb_result))) s4
                          else s4
                     else s2)
           in thumbnail_loop env lib a source thumb_parent duration rest s3)"

definition duration_unavailable :: "pyfloat option \<Rightarrow> bool" where
  \<comment> \<open>the test \<open>duration is None or duration <= 0\<close>\<close>
  "duration_unavailable duration =
     (case duration of None \<Rightarrow> True | Some d \<Rightarrow> float_le d (Finite 0))"

definition thumbnails_for_source ::
  "env \<Rightarrow> float_text \<Rightarrow> args \<Rightarrow> path \<Rightarrow> path \<Rightarrow> path \<Rightarrow> run_state \<Rightarrow> py_error + run_state" where
  \<comment> \<open>lines 328 to 371, the body of \<open>if do_thumbnails\<close>\<close>
  "thumbnails_for_source env lib a thumbnails_dir rel_parent source s =
     (let (duration, s1) = ffprobe_duration_seconds env lib source s
      in case duration of
           None \<Rightarrow>
             Inr (emit (Stderr ''  thumbnail failed (could not read duration)'')
                    (s1\<lparr>thumbnail_failures := thumbnail_failures s1 + 1\<rparr>))
         | Some d \<Rightarrow>
             if float_le d (Finite 0) then
               Inr (emit (Stderr ''  thumbnail failed (could not read duration)'')
                      (s1\<lparr>thumbnail_failures := thumbnail_failures s1 + 1\<rparr>))
             else
               let thumb_parent = thumbnails_dir @ rel_parent;
                   s2 = emit (Mkdir thumb_parent) s1
               in case build_thumbnail_points (thumbnail_count a) of
                    Inl e \<Rightarrow> Inl e
                  | Inr thumbnail_points \<Rightarrow>
                      Inr (thumbnail_loop env lib a source thumb_parent d thumbnail_points s2))"

definition process_source ::
  "env \<Rightarrow> float_text \<Rightarrow> args \<Rightarrow> resolved \<Rightarrow> path \<Rightarrow> int \<Rightarrow> int \<Rightarrow> path \<Rightarrow> run_state
     \<Rightarrow> py_error + run_state" where
  \<comment> \<open>lines 294 to 371, one round of the loop over \<open>sources\<close>\<close>
  "process_source env lib a r thumbnails_dir n_sources index source s =
     (case relative_to source (res_input_dir r) of
        Inl e \<Rightarrow> Inl e
      | Inr rel \<Rightarrow>
          let rel_parent = path_parent rel;
              s1 = emit (Stdout (''['' @ str_int index @ ''/'' @ str_int n_sources @ ''] ''
                                 @ path_name source)) s;
              s2 = (if do_video_conversion a then convert_source env lib a r rel_parent source s1
                    else s1)
          in if do_thumbnails a then
               thumbnails_for_source env lib a thumbnails_dir rel_parent source s2
             else Inr s2)"

fun process_sources ::
  "env \<Rightarrow> float_text \<Rightarrow> args \<Rightarrow> resolved \<Rightarrow> path \<Rightarrow> int \<Rightarrow> int \<Rightarrow> path list \<Rightarrow> run_state
     \<Rightarrow> py_error + run_state" where
  \<comment> \<open>line 293, \<open>for index, source in enumerate(sources, start=1)\<close>\<close>
  "process_sources env lib a r thumbnails_dir n_sources index [] s = Inr s"
| "process_sources env lib a r thumbnails_dir n_sources index (source # rest) s =
     (case process_source env lib a r thumbnails_dir n_sources index source s of
        Inl e \<Rightarrow> Inl e
      | Inr s' \<Rightarrow> process_sources env lib a r thumbnails_dir n_sources (index + 1) rest s')"

datatype outcome = Exited int run_state | Raised py_error

definition main :: "env \<Rightarrow> float_text \<Rightarrow> args \<Rightarrow> outcome" where
  \<comment> \<open>\<open>Exited c s\<close>: \<open>main\<close> returned \<open>c\<close>, having done \<open>trace s\<close>\<close>
  "main env lib a =
     (case resolve_config env a of
        ResolveRaised e \<Rightarrow> Raised e
      | ConfigError lines \<Rightarrow>
          Exited 2 \<lparr>trace = map Stderr lines, conversion_failures = 0, thumbnail_failures = 0\<rparr>
      | Resolved r \<Rightarrow>
          let s0 = \<lparr>trace = [Glob (res_input_dir r) (recursive a)],
                    conversion_failures = 0, thumbnail_failures = 0\<rparr>;
              sources = find_mp4_files env (res_input_dir r) (res_output_dir r) (recursive a)
          in if sources = [] then Exited 0 (emit (Stdout ''No MP4 files found.'') s0)
             else
               let s1 = emit (Mkdir (res_output_dir r)) s0;
                   thumbnails_dir = path_div (res_output_dir r) ''thumbnails'';
                   s2 = (if do_thumbnails a then emit (Mkdir thumbnails_dir) s1 else s1);
                   mode_parts =
                     (if do_video_conversion a then
                        [''video conversion at scale factor ''
                         @ float_fixed lib 2 (res_scale_factor r)
                         @ '' ('' @ str_int (smaller a) @ ''% smaller)'']
                      else [])
                     @ (if do_thumbnails a then
                          [str_int (thumbnail_count a) @ '' evenly spaced thumbnails per video'']
                        else []);
                   s3 = emit (Stdout (''Found '' @ str_int (int (length sources))
                                      @ '' MP4 file(s). Running: '' @ join_str '', '' mode_parts
                                      @ ''.'')) s2
               in case process_sources env lib a r thumbnails_dir (int (length sources)) 1
                         sources s3 of
                    Inl e \<Rightarrow> Raised e
                  | Inr s4 \<Rightarrow>
                      let total_failures = conversion_failures s4 + thumbnail_failures s4;
                          s5 = emit (Stdout (''Completed. Conversion failures: ''
                                             @ str_int (conversion_failures s4)
                                             @ '', Thumbnail failures: ''
                                             @ str_int (thumbnail_failures s4))) s4
                      in Exited (if total_failures \<noteq> 0 then 1 else 0) s5)"

subsection \<open>Reading a trace and a numeral\<close>

definition digits_value :: "string \<Rightarrow> nat" where
  \<comment> \<open>the number a string of decimal digits denotes\<close>
  "digits_value s = foldl (\<lambda>acc c. 10 * acc + (of_char c - 48)) 0 s"

fun executed :: "event list \<Rightarrow> string list list" where
  \<comment> \<open>the argument vectors of the subprocesses of a trace, in order\<close>
  "executed [] = []"
| "executed (Subprocess cmd # es) = cmd # executed es"
| "executed (e # es) = executed es"

definition probed_duration :: "float_text \<Rightarrow> completed_process \<Rightarrow> pyfloat option" where
  \<comment> \<open>lines 191 to 199: what \<open>ffprobe_duration_seconds\<close> makes of the prober's result\<close>
  "probed_duration lib result =
     (if returncode result \<noteq> 0 then None
      else let value = str_strip (stdout result)
           in if value = [] then None else float_parse lib value)"

definition before_thumbnails ::
  "env \<Rightarrow> float_text \<Rightarrow> args \<Rightarrow> resolved \<Rightarrow> int \<Rightarrow> int \<Rightarrow> path \<Rightarrow> path \<Rightarrow> run_state \<Rightarrow> run_state" where
  \<comment> \<open>the state in which a round of the loop over \<open>sources\<close> reaches line 328\<close>
  "before_thumbnails env lib a r n_sources index source rel s =
     (let s1 = emit (Stdout (''['' @ str_int index @ ''/'' @ str_int n_sources @ ''] ''
                             @ path_name source)) s
      in if do_video_conversion a then convert_source env lib a r (path_parent rel) source s1
         else s1)"

definition duration_failure :: "path \<Rightarrow> run_state \<Rightarrow> run_state" where
  \<comment> \<open>the probe, then lines 331 and 332, and nothing else\<close>
  "duration_failure source s =
     emit (Stderr ''  thumbnail failed (could not read duration)'')
       ((emit (Subprocess (ffprobe_command source)) s)
          \<lparr>thumbnail_failures := thumbnail_failures s + 1\<rparr>)"





definition render :: "string list \<Rightarrow> string" where
  \<comment> \<open>the line that dry-run mode prints for a command\<close>
  "render cmd = ''  '' @ join_str '' '' cmd"

definition is_command_line :: "string \<Rightarrow> bool" where
  "is_command_line text = (take 9 text = ''  ffmpeg '')"

fun printed_commands :: "event list \<Rightarrow> string list" where
  \<comment> \<open>the command lines on stdout, in order\<close>
  "printed_commands [] = []"
| "printed_commands (Stdout text # es) =
     (if is_command_line text then text # printed_commands es else printed_commands es)"
| "printed_commands (e # es) = printed_commands es"

definition is_encoder_command :: "string list \<Rightarrow> bool" where
  "is_encoder_command cmd = (take 1 cmd = [''ffmpeg''])"

definition encoder_commands :: "event list \<Rightarrow> string list list" where
  \<comment> \<open>the argument vectors with which the encoder was started, in order\<close>
  "encoder_commands tr = filter is_encoder_command (executed tr)"

definition outcome_trace :: "outcome \<Rightarrow> event list" where
  "outcome_trace out = (case out of Exited c s \<Rightarrow> trace s | Raised e \<Rightarrow> [])"

definition planned_thumbnails ::
  "env \<Rightarrow> float_text \<Rightarrow> args \<Rightarrow> path \<Rightarrow> path \<Rightarrow> string list list" where
  \<comment> \<open>the thumbnail commands for a source, from what the prober says about it\<close>
  "planned_thumbnails env lib a thumb_parent source =
     (case probed_duration lib (subprocess_run env [] (ffprobe_command source)) of
        None \<Rightarrow> []
      | Some d \<Rightarrow>
          if float_le d (Finite 0) then []
          else map (\<lambda>index. thumbnail_command lib source
                               (path_div thumb_parent (thumb_name source index))
                               (float_mul d (Finite (fraction_of (thumbnail_count a) index)))
                               (overwrite a))
                 [1..thumbnail_count a])"

definition planned_commands ::
  "env \<Rightarrow> float_text \<Rightarrow> args \<Rightarrow> resolved \<Rightarrow> path \<Rightarrow> path \<Rightarrow> string list list" where
  \<comment> \<open>the encoder commands for a source: the conversion, then the thumbnails\<close>
  "planned_commands env lib a r thumbnails_dir source =
     (case relative_to source (res_input_dir r) of
        Inl e \<Rightarrow> []
      | Inr rel \<Rightarrow>
          (if do_video_conversion a then
             [ffmpeg_command lib source
                (path_div (res_output_dir r @ path_parent rel)
                   (path_stem source @ suffix a @ path_suffix source))
                (res_scale_factor r) (crf a) (preset a) (audio_bitrate a) (overwrite a)]
           else [])
          @ (if do_thumbnails a then
               planned_thumbnails env lib a (thumbnails_dir @ path_parent rel) source
             else []))"

definition planned_run :: "env \<Rightarrow> float_text \<Rightarrow> args \<Rightarrow> string list list" where
  \<comment> \<open>the encoder commands of a whole run, source by source\<close>
  "planned_run env lib a =
     (case resolve_config env a of
        Resolved r \<Rightarrow>
          concat (map (planned_commands env lib a r (path_div (res_output_dir r) ''thumbnails''))
                    (find_mp4_files env (res_input_dir r) (res_output_dir r) (recursive a)))
      | _ \<Rightarrow> [])"

definition probe_stable :: "env \<Rightarrow> bool" where
  \<comment> \<open>the prober's answer for a file does not depend on what happened before\<close>
  "probe_stable env =
     (\<forall>h h' source. subprocess_run env h (ffprobe_command source)
                    = subprocess_run env h' (ffprobe_command source))"

subsection \<open>What the scaling filter denotes\<close>

text \<open>
  The filter text that \<open>ffmpeg_command\<close> builds is evaluated by the encoder, not by the
  program. Read as arithmetic, each of its two halves is \<open>trunc(x * factor / 2) * 2\<close> for
  an input dimension \<open>x\<close>, with \<open>trunc\<close> rounding towards zero.
\<close>

definition trunc_rat :: "rat \<Rightarrow> int" where
  "trunc_rat x = (if 0 \<le> x then \<lfloor>x\<rfloor> else \<lceil>x\<rceil>)"

definition scale_dimension :: "rat \<Rightarrow> rat \<Rightarrow> int" where
  "scale_dimension x factor = trunc_rat (x * factor / 2) * 2"

subsection \<open>Concrete surroundings, for evaluating the program\<close>

definition example_fixed :: "nat \<Rightarrow> pyfloat \<Rightarrow> string" where
  \<comment> \<open>the \<open>.Nf\<close> format, right on finite floats that are not negative\<close>
  "example_fixed n x =
     (case x of
        Finite q \<Rightarrow>
          (let r = nat (round_half_even (q * 10 ^ n))
           in str_nat (r div 10 ^ n) @ ''.'' @ zfill n (str_nat (r mod 10 ^ n)))
      | PosInf \<Rightarrow> ''inf''
      | NegInf \<Rightarrow> ''-inf''
      | NaN \<Rightarrow> ''nan'')"

definition example_lib :: float_text where
  \<comment> \<open>text conversions that are right on the few floats the examples use\<close>
  "example_lib =
     \<lparr>float_repr = (\<lambda>x. if x = Finite (1 / 2) then ''0.5'' else ''?''),
      float_fixed = example_fixed,
      float_parse = (\<lambda>s. if s = ''100.0'' then Some (Finite 100)
                         else if s = ''0.0'' then Some (Finite 0) else None)\<rparr>"

definition example_fs :: fsnode where
  "example_fs =
     Directory [(''videos'',
       Directory [(''a.mp4'', RegularFile),
                  (''notes.txt'', RegularFile),
                  (''clips'', Directory [(''B.MP4'', RegularFile)]),
                  (''converted'', Directory [(''a.mp4'', RegularFile)])])]"

definition example_env :: "string \<Rightarrow> env" where
  \<comment> \<open>every subprocess succeeds and prints the given text\<close>
  "example_env out =
     \<lparr>which_ffmpeg = True,
      which_ffprobe = True,
      expanduser_resolve = path_parts,
      resolve = (\<lambda>p. p),
      filesystem = example_fs,
      subprocess_run = (\<lambda>history cmd. \<lparr>returncode = 0, stdout = out, stderr = []\<rparr>)\<rparr>"

definition example_args :: args where
  "example_args =
     \<lparr>input_dir = ''/videos'',
      output_dir = None,
      smaller = 50,
      recursive = False,
      suffix = [],
      crf = 23,
      preset = ''medium'',
      audio_bitrate = ''128k'',
      overwrite = False,
      dry_run = False,
      thumbnails = False,
      thumbnails_only = False,
      thumbnail_count = 3\<rparr>"

section \<open>Properties\<close>

subsection \<open>Rounding to binary64\<close>

lemma round_half_even_error: "\<bar>of_int (round_half_even x) - x\<bar> \<le> 1 / 2"
proof -
  have "of_int \<lfloor>x\<rfloor> \<le> x" "x < of_int \<lfloor>x\<rfloor> + 1"
    by linarith+
  then show ?thesis
    by (auto simp: round_half_even_def Let_def abs_le_iff)
qed

lemma round_half_even_of_int: "round_half_even (of_int k) = k"
  by (simp add: round_half_even_def)

lemma ilog2_lower: 
  assumes "0 < q"
  shows "2 powi (ilog2 q) \<le> q"
proof -
  obtain a b where ab: "quotient_of q = (a, b)"
    by (cases "quotient_of q")
  then have q: "q = of_int a / of_int b" and b: "0 < b"
    by (simp_all add: quotient_of_div quotient_of_denom_pos)
  with assms have a: "0 < a"
    by (simp add: zero_less_divide_iff)
  define d where "d = bitlen a - bitlen b"
  show ?thesis
  proof (cases "2 powi d \<le> q")
    case True
    then show ?thesis
      by (simp add: ilog2_def ab d_def)
  next
    case False
    have la: "2 ^ nat (bitlen a - 1) \<le> a" and lb: "b < 2 ^ nat (bitlen b)"
      using bitlen_bounds [OF a] bitlen_bounds [OF b] by simp_all
    have pa: "1 \<le> bitlen a" and pb: "1 \<le> bitlen b"
      using a b bitlen_nonneg [of a] bitlen_nonneg [of b] bitlen_eq_zero_iff [of a] bitlen_eq_zero_iff [of b]
      by linarith+
    have la': "(2::rat) ^ nat (bitlen a - 1) \<le> of_int a"
    proof -
      have "(of_int (2 ^ nat (bitlen a - 1)) :: rat) \<le> of_int a"
        using la by (simp only: of_int_le_iff)
      then show ?thesis by simp
    qed
    have lb': "of_int b \<le> (2::rat) ^ nat (bitlen b)"
    proof -
      have "(of_int b :: rat) < of_int (2 ^ nat (bitlen b))"
        using lb by (simp only: of_int_less_iff)
      then show ?thesis by simp
    qed
    have "(2::rat) powi (d - 1) = 2 powi (bitlen a - 1) / 2 powi (bitlen b)"
      by (simp add: d_def power_int_diff)
    also have "\<dots> = 2 ^ nat (bitlen a - 1) / 2 ^ nat (bitlen b)"
      using pa pb by (simp add: power_int_def)
    also have "\<dots> \<le> of_int a / 2 ^ nat (bitlen b)"
      using la' by (simp add: divide_right_mono)
    also have "\<dots> \<le> of_int a / of_int b"
      using lb' a b by (intro divide_left_mono) simp_all
    finally have "(2::rat) powi (d - 1) \<le> q"
      by (simp add: q)
    with False show ?thesis
      by (simp add: ilog2_def ab d_def)
  qed
qed


lemma ilog2_negative:
  assumes "0 < q" "q < 1"
  shows "ilog2 q \<le> - 1"
proof (rule ccontr)
  assume "\<not> ilog2 q \<le> - 1"
  then have "0 \<le> ilog2 q" by simp
  then have "(1::rat) \<le> 2 powi (ilog2 q)"
    by (simp add: one_le_power_int)
  with ilog2_lower [OF assms(1)] assms(2) show False by simp
qed

lemma binary64_round_error:
  assumes "0 < q" "q < 1"
  shows "\<bar>binary64_round q - q\<bar> \<le> 1 / 2 ^ 54"
proof -
  define e where "e = max (ilog2 \<bar>q\<bar>) (- 1022)"
  define ulp :: rat where "ulp = 2 powi (e - 52)"
  have e: "e \<le> - 1"
    using ilog2_negative [OF assms] assms by (simp add: e_def)
  have ulp_pos: "0 < ulp"
    by (simp add: ulp_def)
  have "ulp \<le> 2 powi (- 53)"
    unfolding ulp_def using e by (intro power_int_increasing) simp_all
  then have ulp_le: "ulp \<le> 1 / 2 ^ 53"
    by (simp add: power_int_minus field_simps)
  have r: "binary64_round q = of_int (round_half_even (q / ulp)) * ulp"
    using assms by (simp add: binary64_round_def Let_def e_def ulp_def)
  have "binary64_round q - q = (of_int (round_half_even (q / ulp)) - q / ulp) * ulp"
    using ulp_pos by (simp add: r field_simps)
  then have "\<bar>binary64_round q - q\<bar> = \<bar>of_int (round_half_even (q / ulp)) - q / ulp\<bar> * ulp"
    using ulp_pos by (simp add: abs_mult)
  also have "\<dots> \<le> (1 / 2) * ulp"
    using round_half_even_error [of "q / ulp"] ulp_pos by (intro mult_right_mono) simp_all
  also have "\<dots> \<le> (1 / 2) * (1 / 2 ^ 53)"
    using ulp_le by simp
  finally show ?thesis by simp
qed

lemma binary64_round_small_int:
  assumes "0 < k" "k < 2 ^ 53"
  shows "binary64_round (of_int k) = of_int k"
proof -
  define e where "e = max (ilog2 \<bar>of_int k\<bar>) (- 1022)"
  have kpos: "(0::rat) < of_int k" using assms by simp
  have "(2::rat) powi (ilog2 (of_int k)) \<le> of_int k"
    by (rule ilog2_lower [OF kpos])
  also have "(of_int k :: rat) < of_int (2 ^ 53)"
    using assms(2) by (simp only: of_int_less_iff)
  finally have "(2::rat) powi (ilog2 (of_int k)) < 2 powi 53"
    by simp
  then have "ilog2 (of_int k) < 53"
    by (rule power_int_le_imp_less_exp [rotated]) simp_all
  then have e: "e \<le> 52" using kpos by (simp add: e_def)
  define m where "m = nat (52 - e)"
  define ulp :: rat where "ulp = 2 powi (e - 52)"
  have ulp: "ulp = 1 / 2 ^ m"
    using e by (simp add: ulp_def m_def power_int_def field_simps)
  have r: "binary64_round (of_int k) = of_int (round_half_even (of_int k / ulp)) * ulp"
    using kpos by (simp add: binary64_round_def Let_def e_def ulp_def)
  have "of_int k / ulp = of_int (k * 2 ^ m)"
    by (simp add: ulp)
  then have "round_half_even (of_int k / ulp) = k * 2 ^ m"
    by (simp only: round_half_even_of_int)
  then show ?thesis
    by (simp add: r ulp)
qed

subsection \<open>The conversion command\<close>

text \<open>
  C6. Whatever source, destination, scale factor, quality, preset, audio bitrate and
  overwrite flag are given, \<open>ffmpeg_command\<close> (a function of its arguments alone) returns
  a vector of 22 arguments: the encoder with banner and log output suppressed, \<open>-y\<close> when
  overwrite is set and \<open>-n\<close> otherwise, the source as input, the filter
  \<open>scale=trunc(iw*f/2)*2:trunc(ih*f/2)*2\<close> with the scale factor's text for \<open>f\<close>, the
  libx264 codec with the given preset and CRF, the aac codec with the given bitrate,
  \<open>-movflags +faststart\<close>, and last the destination. Each dimension the filter denotes
  is even.
\<close>

theorem ffmpeg_command_shape:
  "let cmd = ffmpeg_command lib source destination scale_factor q p ab ow
   in length cmd = 22
       \<and> take 4 cmd = [''ffmpeg'', ''-hide_banner'', ''-loglevel'', ''error'']
       \<and> cmd ! 4 = (if ow then ''-y'' else ''-n'')
       \<and> cmd ! 5 = ''-i'' \<and> cmd ! 6 = str_path source
       \<and> cmd ! 7 = ''-vf''
       \<and> cmd ! 8 = ''scale=trunc(iw*'' @ float_repr lib scale_factor @ ''/2)*2:trunc(ih*''
                    @ float_repr lib scale_factor @ ''/2)*2''
       \<and> cmd ! 9 = ''-c:v'' \<and> cmd ! 10 = ''libx264''
       \<and> cmd ! 11 = ''-preset'' \<and> cmd ! 12 = p
       \<and> cmd ! 13 = ''-crf'' \<and> cmd ! 14 = str_int q
       \<and> cmd ! 15 = ''-c:a'' \<and> cmd ! 16 = ''aac''
       \<and> cmd ! 17 = ''-b:a'' \<and> cmd ! 18 = ab
       \<and> cmd ! 19 = ''-movflags'' \<and> cmd ! 20 = ''+faststart''
       \<and> last cmd = str_path destination
       \<and> even (scale_dimension x f)"
  by (simp add: ffmpeg_command_def scale_dimension_def)

theorem ffmpeg_command_shape_witness:
  "ffmpeg_command example_lib [''in'', ''a.mp4''] [''in'', ''converted'', ''a.mp4'']
       (Finite (1 / 2)) 23 ''medium'' ''128k'' False ! 8
     = ''scale=trunc(iw*0.5/2)*2:trunc(ih*0.5/2)*2''
   \<and> scale_dimension 1919 (1 / 2) = 958"
proof -
  have "scale_dimension 1919 (1 / 2) = 958"
    by code_simp
  with ffmpeg_command_shape
    [of example_lib "[''in'', ''a.mp4'']" "[''in'', ''converted'', ''a.mp4'']" "Finite (1 / 2)"
        23 "''medium''" "''128k''" False 0 0]
  show ?thesis
    by (simp add: Let_def example_lib_def)
qed

subsection \<open>Thumbnail points\<close>

lemma to_float_unit:
  assumes "0 < q" "q < 1"
  shows "to_float q = Finite (binary64_round q)"
proof -
  have "\<bar>binary64_round q - q\<bar> \<le> 1 / 2 ^ 54"
    by (rule binary64_round_error [OF assms])
  moreover have "1 / 2 ^ 54 \<le> (1::rat)"
    by simp
  ultimately have "- 1 \<le> binary64_round q" "binary64_round q \<le> 2"
    using assms by linarith+
  moreover have "(2::rat) \<le> binary64_max"
    by (simp add: binary64_max_def)
  ultimately show ?thesis
    by (simp add: to_float_def Let_def)
qed

lemma int_truediv_fraction:
  assumes "0 < i" "i < m"
  shows "int_truediv i m = Inr (Finite (binary64_round (of_int i / of_int m)))"
proof -
  have "(0::rat) < of_int i / of_int m" "of_int i / of_int m < (1::rat)"
    using assms by simp_all
  then have "to_float (of_int i / of_int m) = Finite (binary64_round (of_int i / of_int m))"
    by (rule to_float_unit)
  with assms show ?thesis
    by (simp add: int_truediv_def)
qed

lemma try_map_all_Inr:
  "(\<And>x. x \<in> set xs \<Longrightarrow> f x = Inr (g x)) \<Longrightarrow> try_map f xs = Inr (map g xs)"
  by (induction xs) simp_all

lemma build_thumbnail_points_returns:
  "build_thumbnail_points count =
     Inr (map (\<lambda>index. (index, Finite (fraction_of count index))) [1..count])"
  unfolding build_thumbnail_points_def
  by (rule try_map_all_Inr) (simp add: int_truediv_fraction fraction_of_def)












subsection \<open>Validation of the options\<close>

lemma to_float_small_int:
  assumes "0 < k" "k < 2 ^ 53"
  shows "to_float (of_int k) = Finite (of_int k)"
proof -
  have "(of_int k :: rat) < of_int (2 ^ 53)"
    using assms(2) by (simp only: of_int_less_iff)
  then have "(of_int k :: rat) < 2 ^ 53" by simp
  moreover have "(2::rat) ^ 53 \<le> binary64_max"
    by (simp add: binary64_max_def)
  moreover have "(0::rat) < of_int k" using assms(1) by simp
  ultimately show ?thesis
    using assms by (simp add: to_float_def binary64_round_small_int)
qed

lemma scale_factor_value:
  assumes "1 \<le> p" "p \<le> 99"
  shows "(case float_of_int (100 - p) of Inl e \<Rightarrow> Inl e | Inr x \<Rightarrow> float_truediv x (Finite 100))
           = Inr (Finite (binary64_round (of_int (100 - p) / 100)))"
proof -
  have "0 < 100 - p" "100 - p < 2 ^ 53"
    using assms by simp_all
  then have "float_of_int (100 - p) = Inr (Finite (of_int (100 - p)))"
    by (simp add: float_of_int_def to_float_small_int del: of_int_diff)
  moreover have "to_float (of_int (100 - p) / 100) = Finite (binary64_round (of_int (100 - p) / 100))"
    using assms by (intro to_float_unit) simp_all
  ultimately show ?thesis
    by (simp del: of_int_diff)
qed

lemma scale_factor_bounds:
  assumes "1 \<le> p" "p \<le> 99"
  defines "sf \<equiv> binary64_round (of_int (100 - p) / 100)"
  shows "\<bar>sf - of_int (100 - p) / 100\<bar> \<le> 1 / 2 ^ 54" "0 < sf" "sf < 1"
proof -
  have lo: "(1::rat) / 100 \<le> of_int (100 - p) / 100" and hi: "of_int (100 - p) / 100 \<le> (99::rat) / 100"
    using assms by simp_all
  show e: "\<bar>sf - of_int (100 - p) / 100\<bar> \<le> 1 / 2 ^ 54"
    unfolding sf_def using assms by (intro binary64_round_error) simp_all
  have small: "(1::rat) / 2 ^ 54 < 1 / 100"
    by simp
  from e lo small show "0 < sf" by linarith
  from e hi small show "sf < 1" by linarith
qed

text \<open>
  C4. When conversion is requested and the run reaches the computation of the scale factor
  (the earlier checks pass), then for every \<open>--smaller\<close> value \<open>p\<close> with \<open>1 \<le> p \<le> 99\<close> the
  options resolve, the scale factor is the float quotient \<open>(100 - p) / 100.0\<close> (the binary64
  number nearest to \<open>(100 - p) / 100\<close>, within \<open>2\<^sup>-\<^sup>5\<^sup>4\<close> of it), and it lies strictly between
  0 and 1.
\<close>

theorem resolve_config_scale_factor:
  assumes "earlier_checks_pass env a" "do_video_conversion a" "1 \<le> smaller a" "smaller a \<le> 99"
  shows "\<exists>sf. resolve_config env a
              = Resolved \<lparr>res_input_dir = expanduser_resolve env (input_dir a),
                          res_output_dir = resolved_output_dir env a,
                          res_scale_factor = Finite sf\<rparr>
            \<and> sf = binary64_round (of_int (100 - smaller a) / 100)
            \<and> \<bar>sf - of_int (100 - smaller a) / 100\<bar> \<le> 1 / 2 ^ 54
            \<and> 0 < sf \<and> sf < 1"
proof -
  define sf where "sf = binary64_round (of_int (100 - smaller a) / 100)"
  have b: "\<bar>sf - of_int (100 - smaller a) / 100\<bar> \<le> 1 / 2 ^ 54" "0 < sf" "sf < 1"
    unfolding sf_def using assms(3,4) by (rule scale_factor_bounds)+
  have "resolve_config env a
          = Resolved \<lparr>res_input_dir = expanduser_resolve env (input_dir a),
                      res_output_dir = resolved_output_dir env a,
                      res_scale_factor = Finite sf\<rparr>"
    using assms b(2) scale_factor_value [OF assms(3,4)]
    by (simp add: resolve_config_def earlier_checks_pass_def resolved_output_dir_def Let_def sf_def
          split: if_splits del: of_int_diff)
  with b sf_def show ?thesis by blast
qed

lemma example_checks: "earlier_checks_pass (example_env out) example_args"
  by (simp add: earlier_checks_pass_def example_env_def example_args_def do_thumbnails_def
        path_exists_def is_dir_def example_fs_def path_parts_def)

theorem resolve_config_scale_factor_witness:
  "earlier_checks_pass (example_env ''100.0'') example_args
   \<and> do_video_conversion example_args
   \<and> 1 \<le> smaller example_args \<and> smaller example_args \<le> 99
   \<and> resolve_config (example_env ''100.0'') example_args
       = Resolved \<lparr>res_input_dir = [''videos''], res_output_dir = [''videos'', ''converted''],
                   res_scale_factor = Finite (1 / 2)\<rparr>"
proof -
  have c: "earlier_checks_pass (example_env ''100.0'') example_args"
    by (rule example_checks)
  have d: "do_video_conversion example_args" "1 \<le> smaller example_args" "smaller example_args \<le> 99"
    by (simp_all add: do_video_conversion_def example_args_def)
  have "binary64_round (of_int (100 - smaller example_args) / 100) = 1 / 2"
    by code_simp
  moreover have "expanduser_resolve (example_env ''100.0'') (input_dir example_args) = [''videos'']"
    "resolved_output_dir (example_env ''100.0'') example_args = [''videos'', ''converted'']"
    by (simp_all add: example_env_def example_args_def resolved_output_dir_def path_parts_def path_div_def)
  ultimately show ?thesis
    using resolve_config_scale_factor [OF c d] c d by auto
qed

lemma emit_simps [simp]:
  "trace (emit e s) = trace s @ [e]"
  "conversion_failures (emit e s) = conversion_failures s"
  "thumbnail_failures (emit e s) = thumbnail_failures s"
  by (simp_all add: emit_def)




lemma thumbnail_loop_smaller:
  "thumbnail_loop env lib (a\<lparr>smaller := p\<rparr>) source thumb_parent d pts s
     = thumbnail_loop env lib a source thumb_parent d pts s"
  by (induction pts arbitrary: s) (auto simp: Let_def)

lemma thumbnails_for_source_smaller:
  "thumbnails_for_source env lib (a\<lparr>smaller := p\<rparr>) td rel source s
     = thumbnails_for_source env lib a td rel source s"
  by (simp add: thumbnails_for_source_def thumbnail_loop_smaller Let_def
        split: prod.splits option.splits sum.splits)

lemma process_sources_smaller:
  assumes "thumbnails_only a"
  shows "process_sources env lib (a\<lparr>smaller := p\<rparr>) r td n i srcs s
           = process_sources env lib a r td n i srcs s"
  using assms
  by (induction srcs arbitrary: i s)
     (simp_all add: process_source_def do_video_conversion_def do_thumbnails_def
        thumbnails_for_source_smaller Let_def split: sum.splits)

lemma process_sources_scale_factor:
  assumes "thumbnails_only a"
  shows "process_sources env lib a (r\<lparr>res_scale_factor := x\<rparr>) td n i srcs s
           = process_sources env lib a r td n i srcs s"
  using assms
  by (induction srcs arbitrary: i s)
     (simp_all add: process_source_def do_video_conversion_def Let_def split: sum.splits)

lemma resolve_config_smaller:
  assumes "thumbnails_only a"
  shows "resolve_config env (a\<lparr>smaller := p\<rparr>) = resolve_config env a"
  using assms by (simp add: resolve_config_def do_video_conversion_def do_thumbnails_def Let_def)

text \<open>
  C9. In a thumbnails-only run the range of \<open>--smaller\<close> is not checked: whatever integer
  \<open>p\<close> is given, validation and the whole run go exactly as for any other value. The
  validation never reports the \<open>--smaller\<close> error; when the other checks pass it resolves,
  with the scale factor left at \<open>0.0\<close>; and the loop over the sources does not depend on the
  scale factor.
\<close>

theorem thumbnails_only_ignores_smaller:
  assumes "thumbnails_only a"
  shows "resolve_config env (a\<lparr>smaller := p\<rparr>) = resolve_config env a
       \<and> main env lib (a\<lparr>smaller := p\<rparr>) = main env lib a
       \<and> resolve_config env (a\<lparr>smaller := p\<rparr>)
           \<noteq> ConfigError [''Error: --smaller must be between 1 and 99.'']
       \<and> (if earlier_checks_pass env a
           then resolve_config env (a\<lparr>smaller := p\<rparr>)
                  = Resolved \<lparr>res_input_dir = expanduser_resolve env (input_dir a),
                              res_output_dir = resolved_output_dir env a,
                              res_scale_factor = Finite 0\<rparr>
           else \<exists>lines. resolve_config env (a\<lparr>smaller := p\<rparr>) = ConfigError lines)
       \<and> process_sources env lib a (r\<lparr>res_scale_factor := x\<rparr>) td n i srcs s
           = process_sources env lib a r td n i srcs s"
proof -
  have 1: "resolve_config env (a\<lparr>smaller := p\<rparr>) = resolve_config env a"
    by (rule resolve_config_smaller [OF assms])
  have 2: "main env lib (a\<lparr>smaller := p\<rparr>) = main env lib a"
    using assms
    by (simp add: main_def 1 process_sources_smaller do_video_conversion_def do_thumbnails_def
          Let_def split: resolution.splits)
  have 3: "resolve_config env a \<noteq> ConfigError [''Error: --smaller must be between 1 and 99.'']"
    using assms by (simp add: resolve_config_def do_video_conversion_def Let_def)
  have 4: "if earlier_checks_pass env a
           then resolve_config env a
                  = Resolved \<lparr>res_input_dir = expanduser_resolve env (input_dir a),
                              res_output_dir = resolved_output_dir env a,
                              res_scale_factor = Finite 0\<rparr>
           else \<exists>lines. resolve_config env a = ConfigError lines"
    using assms
    by (auto simp: resolve_config_def earlier_checks_pass_def resolved_output_dir_def
          do_video_conversion_def Let_def)
  from 1 2 3 4 process_sources_scale_factor [OF assms] show ?thesis
    by simp
qed

theorem thumbnails_only_ignores_smaller_witness:
  "thumbnails_only (example_args\<lparr>thumbnails_only := True\<rparr>)
   \<and> main (example_env ''100.0'') example_lib (example_args\<lparr>thumbnails_only := True, smaller := 250\<rparr>)
       = main (example_env ''100.0'') example_lib (example_args\<lparr>thumbnails_only := True\<rparr>)
   \<and> resolve_config (example_env ''100.0'') (example_args\<lparr>thumbnails_only := True, smaller := 250\<rparr>)
       = Resolved \<lparr>res_input_dir = [''videos''], res_output_dir = [''videos'', ''converted''],
                   res_scale_factor = Finite 0\<rparr>"
proof -
  have t: "thumbnails_only (example_args\<lparr>thumbnails_only := True\<rparr>)"
    by simp
  have c: "earlier_checks_pass (example_env ''100.0'') (example_args\<lparr>thumbnails_only := True\<rparr>)"
    by code_simp
  have d: "expanduser_resolve (example_env ''100.0'') (input_dir (example_args\<lparr>thumbnails_only := True\<rparr>))
          = [''videos'']"
    "resolved_output_dir (example_env ''100.0'') (example_args\<lparr>thumbnails_only := True\<rparr>)
          = [''videos'', ''converted'']"
    by code_simp+
  note th = thumbnails_only_ignores_smaller [OF t, of "example_env ''100.0''" 250 example_lib]
  have m: "main (example_env ''100.0'') example_lib (example_args\<lparr>thumbnails_only := True, smaller := 250\<rparr>)
       = main (example_env ''100.0'') example_lib (example_args\<lparr>thumbnails_only := True\<rparr>)"
    by (rule th [THEN conjunct2, THEN conjunct1])
  have "resolve_config (example_env ''100.0'') (example_args\<lparr>thumbnails_only := True, smaller := 250\<rparr>)
       = Resolved \<lparr>res_input_dir = [''videos''], res_output_dir = [''videos'', ''converted''],
                   res_scale_factor = Finite 0\<rparr>"
    using th [THEN conjunct2, THEN conjunct2, THEN conjunct2, THEN conjunct1] c
    by (simp only: if_True d)
  with t m show ?thesis
    by (simp only: simp_thms)
qed

subsection \<open>Thumbnail file names\<close>

lemma of_char_digit_char: "d < 10 \<Longrightarrow> of_char (digit_char d) = 48 + d"
  by (simp add: digit_char_def)

lemma digits_value_snoc:
  "digits_value (s @ [c]) = 10 * digits_value s + (of_char c - 48)"
  by (simp add: digits_value_def)

lemma digits_value_str_nat: "digits_value (str_nat n) = n"
proof (induction n rule: str_nat.induct)
  case (1 n)
  show ?case
  proof (cases "n < 10")
    case True
    then show ?thesis
      by (subst str_nat.simps) (simp add: digits_value_def of_char_digit_char)
  next
    case False
    with 1 have "digits_value (str_nat (n div 10)) = n div 10"
      by simp
    with False show ?thesis
      by (subst str_nat.simps) (simp add: digits_value_snoc of_char_digit_char)
  qed
qed

lemma digits_value_zeros: "digits_value (replicate k CHR ''0'' @ s) = digits_value s"
proof -
  have "foldl (\<lambda>acc c. 10 * acc + (of_char c - 48)) 0 (replicate k CHR ''0'') = (0::nat)"
    by (induction k) simp_all
  then show ?thesis
    by (simp add: digits_value_def)
qed

lemma digits_value_zfill: "digits_value (zfill w (str_nat n)) = n"
  by (simp add: zfill_def digits_value_zeros digits_value_str_nat)

lemma str_nat_digits: "c \<in> set (str_nat n) \<Longrightarrow> \<exists>d<10. c = digit_char d"
proof (induction n rule: str_nat.induct)
  case (1 n)
  show ?case
  proof (cases "n < 10")
    case True
    with "1.prems" show ?thesis
      by (subst (asm) str_nat.simps) auto
  next
    case False
    with "1.prems" have "c \<in> set (str_nat (n div 10)) \<or> c = digit_char (n mod 10)"
      by (subst (asm) str_nat.simps) auto
    with False 1 show ?thesis
      by (metis mod_less_divisor zero_less_numeral)
  qed
qed

lemma str_nat_not_empty: "str_nat n \<noteq> []"
  by (subst str_nat.simps) simp


lemma digit_char_facts:
  assumes "d < 10"
  shows "digit_char d \<noteq> CHR ''-''" "digit_char d \<noteq> CHR ''/''"
proof -
  have v: "of_char (digit_char d) = 48 + d"
    by (rule of_char_digit_char [OF assms])
  show "digit_char d \<noteq> CHR ''-''"
  proof
    assume "digit_char d = CHR ''-''"
    then have "of_char (digit_char d) = (45::nat)" by simp
    with v show False by simp
  qed
  show "digit_char d \<noteq> CHR ''/''"
  proof
    assume "digit_char d = CHR ''/''"
    then have "of_char (digit_char d) = (47::nat)" by simp
    with v show False by simp
  qed
qed

lemma zfill_str_nat_chars:
  assumes "c \<in> set (zfill w (str_nat n))"
  shows "c \<noteq> CHR ''-''" "c \<noteq> CHR ''/''"
proof -
  from assms have "c = CHR ''0'' \<or> c \<in> set (str_nat n)"
    by (auto simp: zfill_def)
  then have "c = CHR ''0'' \<or> (\<exists>d<10. c = digit_char d)"
    using str_nat_digits by blast
  then consider "c = CHR ''0''" | d where "d < 10" "c = digit_char d"
    by blast
  then show "c \<noteq> CHR ''-''"
  proof cases
    case 1
    then show ?thesis by simp
  next
    case 2
    then show ?thesis by (simp add: digit_char_facts(1))
  qed
  from \<open>c = CHR ''0'' \<or> (\<exists>d<10. c = digit_char d)\<close>
  consider "c = CHR ''0''" | d where "d < 10" "c = digit_char d"
    by blast
  then show "c \<noteq> CHR ''/''"
  proof cases
    case 1
    then show ?thesis by simp
  next
    case 2
    then show ?thesis by (simp add: digit_char_facts(2))
  qed
qed

lemma zfill_not_empty: "zfill w (str_nat n) \<noteq> []"
  by (simp add: zfill_def str_nat_not_empty)

lemma format_02d_inject:
  assumes "format_02d i = format_02d j"
  shows "i = j"
proof -
  have neg: "hd (format_02d k) = CHR ''-''" if "k < 0" for k
    using that by (simp add: format_02d_def)
  have pos: "hd (format_02d k) \<noteq> CHR ''-''" if "0 \<le> k" for k
    using that zfill_str_nat_chars(1) [of "hd (zfill 2 (str_nat (nat k)))" 2 "nat k"]
      zfill_not_empty [of 2 "nat k"]
    by (simp add: format_02d_def)
  show ?thesis
  proof (cases "i < 0")
    case True
    with assms neg [of i] pos [of j] have j: "j < 0"
      by (cases "j < 0") auto
    with True assms have "zfill 1 (str_nat (nat (- i))) = zfill 1 (str_nat (nat (- j)))"
      by (simp add: format_02d_def)
    then have "nat (- i) = nat (- j)"
      by (metis digits_value_zfill)
    with True j show ?thesis by simp
  next
    case False
    with assms neg [of j] pos [of i] have j: "0 \<le> j"
      by (cases "j < 0") auto
    with False assms have "zfill 2 (str_nat (nat i)) = zfill 2 (str_nat (nat j))"
      by (simp add: format_02d_def)
    then have "nat i = nat j"
      by (metis digits_value_zfill)
    with False j show ?thesis by simp
  qed
qed

lemma format_02d_no_slash: "CHR ''/'' \<notin> set (format_02d i)"
  using zfill_str_nat_chars(2) by (auto simp: format_02d_def)

lemma thumb_name_inject: "thumb_name source i = thumb_name source j \<Longrightarrow> i = j"
  by (simp add: thumb_name_def format_02d_inject)

lemma split_on_no_sep: "c \<notin> set s \<Longrightarrow> split_on c s = [s]"
  by (induction s) auto

lemma split_on_not_empty: "split_on c s \<noteq> []"
  by (induction s) (auto split: list.splits)

lemma split_on_append:
  "c \<notin> set ys \<Longrightarrow>
     split_on c (xs @ ys) = butlast (split_on c xs) @ [last (split_on c xs) @ ys]"
proof (induction xs)
  case Nil
  then show ?case by (simp add: split_on_no_sep)
next
  case (Cons x xs)
  then show ?case
    using split_on_not_empty [of c xs] split_on_not_empty [of c "xs @ ys"]
    by (auto split: list.splits simp: butlast_append)
qed

lemma last_path_parts:
  assumes "CHR ''/'' \<notin> set ys" "2 \<le> length ys"
  shows "path_parts (xs @ ys) \<noteq> []"
    and "last (path_parts (xs @ ys)) = last (split_on CHR ''/'' xs) @ ys"
proof -
  let ?w = "last (split_on CHR ''/'' xs) @ ys"
  have "?w \<noteq> []" "?w \<noteq> ''.''"
    using assms(2) by (auto simp: append_eq_Cons_conv)
  then have "path_parts (xs @ ys)
      = filter (\<lambda>c. c \<noteq> [] \<and> c \<noteq> ''.'') (butlast (split_on CHR ''/'' xs)) @ [?w]"
    by (simp add: path_parts_def split_on_append [OF assms(1)])
  then show "path_parts (xs @ ys) \<noteq> []"
    and "last (path_parts (xs @ ys)) = ?w"
    by simp_all
qed

lemma last_thumb_path:
  "last (path_div thumb_parent (thumb_name source i))
     = last (split_on CHR ''/'' (path_stem source)) @ ''_thumb_'' @ format_02d i @ ''.jpg''"
proof -
  let ?ys = "''_thumb_'' @ format_02d i @ ''.jpg''"
  have "CHR ''/'' \<notin> set ?ys" "2 \<le> length ?ys"
    using format_02d_no_slash [of i] by simp_all
  from last_path_parts [OF this, of "path_stem source"] show ?thesis
    by (simp add: path_div_def thumb_name_def)
qed

lemma thumb_path_inject:
  assumes "path_div thumb_parent (thumb_name source i) = path_div thumb_parent (thumb_name source j)"
  shows "i = j"
proof -
  from assms have "last (path_div thumb_parent (thumb_name source i))
      = last (path_div thumb_parent (thumb_name source j))"
    by simp
  then show ?thesis
    by (simp add: last_thumb_path format_02d_inject)
qed


lemma executed_append: "executed (xs @ ys) = executed xs @ executed ys"
  by (induction xs rule: executed.induct) simp_all

lemma thumbnail_loop_executed:
  assumes "\<not> dry_run a"
  shows "executed (trace (thumbnail_loop env lib a source thumb_parent d pts s))
       = executed (trace s)
         @ map (\<lambda>(i, f). thumbnail_command lib source (path_div thumb_parent (thumb_name source i))
                            (float_mul d f) (overwrite a)) pts"
  using assms
  by (induction pts arbitrary: s) (auto simp: Let_def executed_append)

lemma format_02d_length: "0 \<le> i \<Longrightarrow> 2 \<le> length (format_02d i)"
  by (simp add: format_02d_def zfill_def)

lemma format_02d_value: "0 \<le> i \<Longrightarrow> digits_value (format_02d i) = nat i"
  by (simp add: format_02d_def digits_value_zfill)

text \<open>
  C10. For every thumbnail count \<open>n\<close> and every source file, the \<open>n\<close> points that
  \<open>build_thumbnail_points\<close> returns give pairwise distinct thumbnail file names
  \<open><stem>_thumb_<index>.jpg\<close> and pairwise distinct destination paths under the thumbnail
  directory. The index is written with at least two digits, and reading the digits back
  gives the index, so nothing of a longer index is cut off. These paths are the
  destinations of the commands the thumbnail loop runs, in order.
\<close>

theorem thumbnail_names_distinct:
  "\<exists>pts. build_thumbnail_points n = Inr pts
     \<and> length pts = nat n
     \<and> distinct (map (\<lambda>(i, f). thumb_name source i) pts)
     \<and> distinct (map (\<lambda>(i, f). path_div thumb_parent (thumb_name source i)) pts)
     \<and> list_all (\<lambda>(i, f). 2 \<le> length (format_02d i) \<and> digits_value (format_02d i) = nat i) pts
     \<and> (if dry_run a then True
         else executed (trace (thumbnail_loop env lib a source thumb_parent d pts s))
              = executed (trace s)
                @ map (\<lambda>(i, f). thumbnail_command lib source
                                   (path_div thumb_parent (thumb_name source i))
                                   (float_mul d f) (overwrite a)) pts)"
proof -
  let ?pts = "map (\<lambda>index. (index, Finite (fraction_of n index))) [1..n]"
  have 1: "build_thumbnail_points n = Inr ?pts"
    by (rule build_thumbnail_points_returns)
  have 2: "length ?pts = nat n"
    by simp
  have "inj_on (thumb_name source) (set [1..n])"
    by (rule inj_onI) (rule thumb_name_inject)
  then have 3: "distinct (map (\<lambda>(i, f). thumb_name source i) ?pts)"
    by (simp add: distinct_map comp_def)
  have "inj_on (\<lambda>i. path_div thumb_parent (thumb_name source i)) (set [1..n])"
    by (rule inj_onI) (rule thumb_path_inject)
  then have 4: "distinct (map (\<lambda>(i, f). path_div thumb_parent (thumb_name source i)) ?pts)"
    by (simp add: distinct_map comp_def)
  have 5: "list_all (\<lambda>(i, f). 2 \<le> length (format_02d i) \<and> digits_value (format_02d i) = nat i) ?pts"
    by (simp add: list_all_iff format_02d_length format_02d_value)
  have 6: "if dry_run a then True
         else executed (trace (thumbnail_loop env lib a source thumb_parent d ?pts s))
              = executed (trace s)
                @ map (\<lambda>(i, f). thumbnail_command lib source
                                   (path_div thumb_parent (thumb_name source i))
                                   (float_mul d f) (overwrite a)) ?pts"
    by (simp add: thumbnail_loop_executed)
  from 1 2 3 4 5 6 show ?thesis
    by blast
qed

theorem thumbnail_names_distinct_witness:
  "(\<exists>pts. build_thumbnail_points 3 = Inr pts
     \<and> map (\<lambda>(i, f). thumb_name [''videos'', ''a.mp4''] i) pts
         = [''a_thumb_01.jpg'', ''a_thumb_02.jpg'', ''a_thumb_03.jpg'']
     \<and> distinct (map (\<lambda>(i, f). thumb_name [''videos'', ''a.mp4''] i) pts)
     \<and> distinct (map (\<lambda>(i, f). path_div [''videos'', ''converted'', ''thumbnails'']
                                   (thumb_name [''videos'', ''a.mp4''] i)) pts))
   \<and> format_02d 7 = ''07'' \<and> format_02d 123 = ''123''"
proof -
  obtain pts where pts: "build_thumbnail_points 3 = Inr pts"
    and d: "distinct (map (\<lambda>(i, f). thumb_name [''videos'', ''a.mp4''] i) pts)"
      "distinct (map (\<lambda>(i, f). path_div [''videos'', ''converted'', ''thumbnails'']
                                   (thumb_name [''videos'', ''a.mp4''] i)) pts)"
    using thumbnail_names_distinct
      [of 3 "[''videos'', ''a.mp4'']" "[''videos'', ''converted'', ''thumbnails'']"]
    by blast
  have "[1..3] = [1, 2, 3::int]"
    by (simp add: upto_rec1)
  then have "pts = [(1, Finite (fraction_of 3 1)), (2, Finite (fraction_of 3 2)),
                    (3, Finite (fraction_of 3 3))]"
    using pts by (simp add: build_thumbnail_points_returns)
  moreover have "thumb_name [''videos'', ''a.mp4''] 1 = ''a_thumb_01.jpg''"
    "thumb_name [''videos'', ''a.mp4''] 2 = ''a_thumb_02.jpg''"
    "thumb_name [''videos'', ''a.mp4''] 3 = ''a_thumb_03.jpg''"
    by code_simp+
  ultimately have names: "map (\<lambda>(i, f). thumb_name [''videos'', ''a.mp4''] i) pts
         = [''a_thumb_01.jpg'', ''a_thumb_02.jpg'', ''a_thumb_03.jpg'']"
    by simp
  have f: "format_02d 7 = ''07''" "format_02d 123 = ''123''"
    by code_simp+
  show ?thesis
  proof (intro conjI exI)
    show "build_thumbnail_points 3 = Inr pts" by (rule pts)
    show "map (\<lambda>(i, f). thumb_name [''videos'', ''a.mp4''] i) pts
         = [''a_thumb_01.jpg'', ''a_thumb_02.jpg'', ''a_thumb_03.jpg'']" by (rule names)
    show "distinct (map (\<lambda>(i, f). thumb_name [''videos'', ''a.mp4''] i) pts)" by (rule d)
    show "distinct (map (\<lambda>(i, f). path_div [''videos'', ''converted'', ''thumbnails'']
                                   (thumb_name [''videos'', ''a.mp4''] i)) pts)" by (rule d)
    show "format_02d 7 = ''07''" "format_02d 123 = ''123''" by (rule f)+
  qed
qed

subsection \<open>File discovery\<close>

lemma relative_to_iff: "relative_to p base = Inr rel \<longleftrightarrow> p = base @ rel"
  by (induction p base rule: relative_to.induct) auto

lemma is_relative_to_iff: "is_relative_to p base \<longleftrightarrow> (\<exists>rel. p = base @ rel)"
proof -
  have "is_relative_to p base \<longleftrightarrow> (\<exists>rel. relative_to p base = Inr rel)"
    by (cases "relative_to p base") (simp_all add: is_relative_to_def)
  then show ?thesis
    by (simp add: relative_to_iff)
qed

lemma node_at_append:
  "node_at n (d @ rel) = (case node_at n d of None \<Rightarrow> None | Some m \<Rightarrow> node_at m rel)"
proof (induction d arbitrary: n)
  case Nil
  show ?case by simp
next
  case (Cons c cs)
  show ?case
    by (cases n) (simp_all add: Cons split: option.splits)
qed

lemma descendants_not_empty:
  "r \<in> set (descendants n) \<Longrightarrow> r \<noteq> []"
  "r \<in> set (descendants_of_entries es) \<Longrightarrow> r \<noteq> []"
  by (induction n and es rule: descendants_descendants_of_entries.induct) auto

lemma descendants_of_entries_member:
  assumes "(c, m) \<in> set es"
  shows "[c] \<in> set (descendants_of_entries es)"
    and "r \<in> set (descendants m) \<Longrightarrow> c # r \<in> set (descendants_of_entries es)"
  using assms by (induction es) auto

lemma descendants_complete:
  "rel \<noteq> [] \<Longrightarrow> node_at n rel = Some m \<Longrightarrow> rel \<in> set (descendants n)"
proof (induction rel arbitrary: n)
  case Nil
  then show ?case by simp
next
  case (Cons c cs)
  from Cons.prems(2) obtain es where n: "n = Directory es"
    by (cases n) simp_all
  with Cons.prems(2) obtain n' where ms: "map_of es c = Some n'" and at: "node_at n' cs = Some m"
    by (auto split: option.splits)
  from ms have mem: "(c, n') \<in> set es"
    by (rule map_of_SomeD)
  show ?case
  proof (cases "cs = []")
    case True
    with mem n show ?thesis
      by (simp add: descendants_of_entries_member(1))
  next
    case False
    with Cons.IH at have "cs \<in> set (descendants n')"
      by blast
    with mem n show ?thesis
      by (simp add: descendants_of_entries_member(2))
  qed
qed

lemma rglob_star_files:
  "candidate \<in> set (rglob_star fs d) \<and> is_file fs candidate
     \<longleftrightarrow> (\<exists>rel. rel \<noteq> [] \<and> candidate = d @ rel) \<and> node_at fs candidate = Some RegularFile"
proof
  assume l: "candidate \<in> set (rglob_star fs d) \<and> is_file fs candidate"
  then obtain n rel where "node_at fs d = Some n" "rel \<in> set (descendants n)" "candidate = d @ rel"
    by (cases "node_at fs d") (auto simp: rglob_star_def)
  with l show "(\<exists>rel. rel \<noteq> [] \<and> candidate = d @ rel) \<and> node_at fs candidate = Some RegularFile"
    using descendants_not_empty(1) by (auto simp: is_file_def)
next
  assume r: "(\<exists>rel. rel \<noteq> [] \<and> candidate = d @ rel) \<and> node_at fs candidate = Some RegularFile"
  then obtain rel where rel: "rel \<noteq> []" "candidate = d @ rel"
    by blast
  with r obtain n where n: "node_at fs d = Some n" "node_at n rel = Some RegularFile"
    by (auto simp: node_at_append split: option.splits)
  with rel have "rel \<in> set (descendants n)"
    by (simp add: descendants_complete)
  with n rel r show "candidate \<in> set (rglob_star fs d) \<and> is_file fs candidate"
    by (simp add: rglob_star_def is_file_def)
qed

lemma glob_star_files:
  "candidate \<in> set (glob_star fs d) \<and> is_file fs candidate
     \<longleftrightarrow> (\<exists>name. candidate = d @ [name]) \<and> node_at fs candidate = Some RegularFile"
proof
  assume l: "candidate \<in> set (glob_star fs d) \<and> is_file fs candidate"
  then obtain es where "node_at fs d = Some (Directory es)" "candidate \<in> (\<lambda>e. d @ [fst e]) ` set es"
    by (cases "node_at fs d"; cases "the (node_at fs d)") (auto simp: glob_star_def)
  with l show "(\<exists>name. candidate = d @ [name]) \<and> node_at fs candidate = Some RegularFile"
    by (auto simp: is_file_def)
next
  assume r: "(\<exists>name. candidate = d @ [name]) \<and> node_at fs candidate = Some RegularFile"
  then obtain name where name: "candidate = d @ [name]"
    by blast
  with r obtain n where n: "node_at fs d = Some n" "node_at n [name] = Some RegularFile"
    by (auto simp: node_at_append split: option.splits)
  then obtain es where es: "n = Directory es" "map_of es name = Some RegularFile"
    by (cases n) (auto split: option.splits)
  then have "(name, RegularFile) \<in> set es"
    by (simp add: map_of_SomeD)
  then have "name \<in> fst ` set es"
    by force
  with n es name r show "candidate \<in> set (glob_star fs d) \<and> is_file fs candidate"
    by (auto simp: glob_star_def is_file_def)
qed


lemma descendants_of_entries_head:
  "r \<in> set (descendants_of_entries es) \<Longrightarrow> hd r \<in> fst ` set es"
  by (induction es) auto

lemma descendants_distinct:
  "distinct_names n \<Longrightarrow> distinct (descendants n)"
  "distinct (map fst es) \<Longrightarrow> distinct_entries es \<Longrightarrow> distinct (descendants_of_entries es)"
proof (induction n and es rule: descendants_descendants_of_entries.induct)
  case (5 e es)
  have a: "distinct (descendants (snd e))" and b: "distinct (descendants_of_entries es)"
    and c: "fst e \<notin> fst ` set es"
    using 5 by simp_all
  have "[fst e] \<notin> set (descendants_of_entries es)"
    using descendants_of_entries_head [of "[fst e]" es] c by auto
  moreover have "fst e # r \<notin> set (descendants_of_entries es)" for r
    using descendants_of_entries_head [of "fst e # r" es] c by auto
  moreover have "[] \<notin> set (descendants (snd e))"
    using descendants_not_empty(1) by blast
  ultimately show ?case
    using a b by (auto simp: distinct_map)
qed simp_all

lemma distinct_entries_member:
  "distinct_entries es \<Longrightarrow> (c, m) \<in> set es \<Longrightarrow> distinct_names m"
  by (induction es) auto

lemma node_at_distinct_names:
  "distinct_names n \<Longrightarrow> node_at n p = Some m \<Longrightarrow> distinct_names m"
proof (induction p arbitrary: n)
  case Nil
  then show ?case by simp
next
  case (Cons c cs)
  from Cons.prems(2) obtain es where n: "n = Directory es"
    by (cases n) simp_all
  with Cons.prems(2) obtain n' where ms: "map_of es c = Some n'" and at: "node_at n' cs = Some m"
    by (auto split: option.splits)
  from ms have "(c, n') \<in> set es"
    by (rule map_of_SomeD)
  with Cons.prems(1) n have "distinct_names n'"
    using distinct_entries_member by auto
  with Cons.IH at show ?case
    by blast
qed

lemma glob_star_distinct: "distinct_names fs \<Longrightarrow> distinct (glob_star fs d)"
proof (cases "node_at fs d")
  case None
  then show ?thesis by (simp add: glob_star_def)
next
  case (Some n)
  assume "distinct_names fs"
  with Some have "distinct_names n"
    by (rule node_at_distinct_names [rotated])
  then show ?thesis
    using Some by (cases n) (simp_all add: glob_star_def distinct_map inj_on_def comp_def)
qed

lemma rglob_star_distinct: "distinct_names fs \<Longrightarrow> distinct (rglob_star fs d)"
proof (cases "node_at fs d")
  case None
  then show ?thesis by (simp add: rglob_star_def)
next
  case (Some n)
  assume "distinct_names fs"
  with Some have "distinct_names n"
    by (rule node_at_distinct_names [rotated])
  then show ?thesis
    using Some by (simp add: rglob_star_def distinct_map descendants_distinct(1) inj_on_def)
qed

lemma of_char_ascii_lower:
  "of_char (ascii_lower c)
     = (if (65::nat) \<le> of_char c \<and> of_char c \<le> (90::nat) then of_char c + 32 else (of_char c :: nat))"
  by (simp add: ascii_lower_def less_eq_char_def)

lemma char_eq_code: "c = d \<longleftrightarrow> (of_char c :: nat) = of_char d"
  by simp

lemma str_lower_mp4:
  "str_lower s = ''.mp4''
     \<longleftrightarrow> (\<exists>m p. s = [CHR ''.'', m, p, CHR ''4'']
               \<and> (m = CHR ''m'' \<or> m = CHR ''M'') \<and> (p = CHR ''p'' \<or> p = CHR ''P''))"
proof -
  have low: "ascii_lower c = CHR ''.'' \<longleftrightarrow> c = CHR ''.''"
    "ascii_lower c = CHR ''4'' \<longleftrightarrow> c = CHR ''4''"
    "ascii_lower c = CHR ''m'' \<longleftrightarrow> c = CHR ''m'' \<or> c = CHR ''M''"
    "ascii_lower c = CHR ''p'' \<longleftrightarrow> c = CHR ''p'' \<or> c = CHR ''P''" for c
    unfolding char_eq_code [of _ "CHR ''.''"] char_eq_code [of _ "CHR ''4''"]
      char_eq_code [of _ "CHR ''m''"] char_eq_code [of _ "CHR ''M''"]
      char_eq_code [of _ "CHR ''p''"] char_eq_code [of _ "CHR ''P''"] of_char_ascii_lower
    by (auto split: if_splits)
  show ?thesis
    by (auto simp: str_lower_def map_eq_Cons_conv low)
qed

text \<open>
  C5. For every input directory, output directory and recursive flag, \<open>find_mp4_files\<close>
  returns exactly the paths under the input directory (directly in it when the flag is
  off, at any depth when it is on) that are regular files, whose suffix is \<open>.mp4\<close> up to
  the case of its letters, and whose resolved path does not lie in the resolved output
  directory (does not have it as a prefix), also when the output directory is inside the
  input directory. The result is sorted, paths comparing component by component as
  Python compares \<open>Path\<close> objects, and no path is listed twice when no directory lists a
  name twice.
\<close>

theorem find_mp4_files_exact:
  "set (find_mp4_files env input_dir' output_dir' recursive')
     = {candidate.
          (\<exists>rel. rel \<noteq> [] \<and> (recursive' \<or> length rel = 1) \<and> candidate = input_dir' @ rel)
        \<and> node_at (filesystem env) candidate = Some RegularFile
        \<and> (\<exists>m p. path_suffix candidate = [CHR ''.'', m, p, CHR ''4'']
               \<and> (m = CHR ''m'' \<or> m = CHR ''M'') \<and> (p = CHR ''p'' \<or> p = CHR ''P''))
        \<and> \<not> (\<exists>below. resolve env candidate = resolve env output_dir' @ below)}
   \<and> sorted (find_mp4_files env input_dir' output_dir' recursive')
   \<and> (if distinct_names (filesystem env)
       then distinct (find_mp4_files env input_dir' output_dir' recursive') else True)"
proof -
  have one: "(\<exists>rel. rel \<noteq> [] \<and> length rel = 1 \<and> c = input_dir' @ rel)
               \<longleftrightarrow> (\<exists>name. c = input_dir' @ [name])" for c
    by (auto simp: length_Suc_conv)
  have "set (find_mp4_files env input_dir' output_dir' recursive')
     = {candidate.
          (\<exists>rel. rel \<noteq> [] \<and> (recursive' \<or> length rel = 1) \<and> candidate = input_dir' @ rel)
        \<and> node_at (filesystem env) candidate = Some RegularFile
        \<and> str_lower (path_suffix candidate) = ''.mp4''
        \<and> \<not> is_relative_to (resolve env candidate) (resolve env output_dir')}"
  proof (cases recursive')
    case True
    then show ?thesis
      using rglob_star_files [of _ "filesystem env" input_dir']
      by (auto simp: find_mp4_files_def)
  next
    case False
    then show ?thesis
      using glob_star_files [of _ "filesystem env" input_dir'] one
      by (auto simp: find_mp4_files_def)
  qed
  then have 1: "set (find_mp4_files env input_dir' output_dir' recursive')
     = {candidate.
          (\<exists>rel. rel \<noteq> [] \<and> (recursive' \<or> length rel = 1) \<and> candidate = input_dir' @ rel)
        \<and> node_at (filesystem env) candidate = Some RegularFile
        \<and> (\<exists>m p. path_suffix candidate = [CHR ''.'', m, p, CHR ''4'']
               \<and> (m = CHR ''m'' \<or> m = CHR ''M'') \<and> (p = CHR ''p'' \<or> p = CHR ''P''))
        \<and> \<not> (\<exists>below. resolve env candidate = resolve env output_dir' @ below)}"
    by (simp only: str_lower_mp4 is_relative_to_iff)
  have 2: "sorted (find_mp4_files env input_dir' output_dir' recursive')"
    by (simp add: find_mp4_files_def)
  have 3: "distinct (find_mp4_files env input_dir' output_dir' recursive')"
    if "distinct_names (filesystem env)"
    using that by (simp add: find_mp4_files_def glob_star_distinct rglob_star_distinct)
  from 1 2 3 show ?thesis
    by simp
qed

theorem find_mp4_files_exact_witness:
  "distinct_names (filesystem (example_env []))
   \<and> find_mp4_files (example_env []) [''videos''] [''videos'', ''converted''] True
       = [[''videos'', ''a.mp4''], [''videos'', ''clips'', ''B.MP4'']]
   \<and> find_mp4_files (example_env []) [''videos''] [''videos'', ''converted''] False
       = [[''videos'', ''a.mp4'']]
   \<and> sorted (find_mp4_files (example_env []) [''videos''] [''videos'', ''converted''] True)
   \<and> distinct (find_mp4_files (example_env []) [''videos''] [''videos'', ''converted''] True)"
proof -
  have d: "distinct_names (filesystem (example_env []))"
    by code_simp
  have t: "find_mp4_files (example_env []) [''videos''] [''videos'', ''converted''] True
       = [[''videos'', ''a.mp4''], [''videos'', ''clips'', ''B.MP4'']]"
    by code_simp
  have f: "find_mp4_files (example_env []) [''videos''] [''videos'', ''converted''] False
       = [[''videos'', ''a.mp4'']]"
    by code_simp
  from find_mp4_files_exact [of "example_env []" "[''videos'']" "[''videos'', ''converted'']" True] d
  have "sorted (find_mp4_files (example_env []) [''videos''] [''videos'', ''converted''] True)"
    "distinct (find_mp4_files (example_env []) [''videos''] [''videos'', ''converted''] True)"
    by (simp_all only: if_True simp_thms)
  with d t f show ?thesis
    by (simp only: simp_thms)
qed

subsection \<open>A duration that cannot be used\<close>

lemma ffprobe_duration_seconds_eq:
  "ffprobe_duration_seconds env lib source s
     = (probed_duration lib (subprocess_run env (trace s) (ffprobe_command source)),
        emit (Subprocess (ffprobe_command source)) s)"
  by (simp add: ffprobe_duration_seconds_def probed_duration_def Let_def)

lemma thumbnails_for_source_unavailable:
  assumes "duration_unavailable
             (probed_duration lib (subprocess_run env (trace s) (ffprobe_command source)))"
  shows "thumbnails_for_source env lib a td rel_parent source s = Inr (duration_failure source s)"
  using assms
  by (auto simp: thumbnails_for_source_def ffprobe_duration_seconds_eq duration_unavailable_def
        duration_failure_def emit_def split: option.splits)

lemma process_source_eq:
  assumes "relative_to source (res_input_dir r) = Inr rel"
  shows "process_source env lib a r td n i source s
       = (if do_thumbnails a
          then thumbnails_for_source env lib a td (path_parent rel) source
                 (before_thumbnails env lib a r n i source rel s)
          else Inr (before_thumbnails env lib a r n i source rel s))"
  using assms by (simp add: process_source_def before_thumbnails_def Let_def)

text \<open>
  C8. When thumbnails are requested and the probed duration of a source file is
  unavailable, which covers a failed probe and equally a duration that was read but is
  less than or equal to zero, the round of the loop for that file ends in the state
  \<open>duration_failure\<close>: after the probe only the failure line is printed, the thumbnail
  failure counter has grown by exactly 1, the conversion counter is as it was, no thumbnail
  command has been built or run, and the loop goes on with the next file.
\<close>

theorem nonpositive_duration_counts_once:
  assumes "do_thumbnails a"
      and "relative_to source (res_input_dir r) = Inr rel"
      and "s2 = before_thumbnails env lib a r n i source rel s"
      and "probed_duration lib (subprocess_run env (trace s2) (ffprobe_command source)) = duration"
      and "duration = None \<or> (\<exists>d. duration = Some d \<and> float_le d (Finite 0))"
  shows "process_sources env lib a r td n i (source # rest) s
           = process_sources env lib a r td n (i + 1) rest (duration_failure source s2)
       \<and> trace (duration_failure source s2)
           = trace s2 @ [Subprocess (ffprobe_command source),
                         Stderr ''  thumbnail failed (could not read duration)'']
       \<and> thumbnail_failures (duration_failure source s2) = thumbnail_failures s2 + 1
       \<and> conversion_failures (duration_failure source s2) = conversion_failures s2"
proof -
  from assms(4,5) have "duration_unavailable
      (probed_duration lib (subprocess_run env (trace s2) (ffprobe_command source)))"
    by (auto simp: duration_unavailable_def)
  with assms(1,2,3) show ?thesis
    by (simp add: process_source_eq thumbnails_for_source_unavailable duration_failure_def)
qed

theorem nonpositive_duration_counts_once_witness:
  "do_thumbnails (example_args\<lparr>thumbnails_only := True\<rparr>)
   \<and> relative_to [''videos'', ''a.mp4''] [''videos''] = Inr [''a.mp4'']
   \<and> probed_duration example_lib
         (subprocess_run (example_env ''0.0'') [Stdout ''[1/1] a.mp4'']
            (ffprobe_command [''videos'', ''a.mp4''])) = Some (Finite 0)
   \<and> float_le (Finite 0) (Finite 0)
   \<and> process_sources (example_env ''0.0'') example_lib (example_args\<lparr>thumbnails_only := True\<rparr>)
         \<lparr>res_input_dir = [''videos''], res_output_dir = [''videos'', ''converted''],
           res_scale_factor = Finite 0\<rparr>
         [''videos'', ''converted'', ''thumbnails''] 1 1 [[''videos'', ''a.mp4'']]
         \<lparr>trace = [], conversion_failures = 0, thumbnail_failures = 0\<rparr>
       = Inr \<lparr>trace = [Stdout ''[1/1] a.mp4'',
                         Subprocess (ffprobe_command [''videos'', ''a.mp4'']),
                         Stderr ''  thumbnail failed (could not read duration)''],
               conversion_failures = 0, thumbnail_failures = 1\<rparr>"
proof -
  let ?a = "example_args\<lparr>thumbnails_only := True\<rparr>"
  let ?r = "\<lparr>res_input_dir = [''videos''], res_output_dir = [''videos'', ''converted''],
           res_scale_factor = Finite 0\<rparr>"
  let ?s = "\<lparr>trace = [], conversion_failures = 0, thumbnail_failures = 0\<rparr>"
  let ?s2 = "\<lparr>trace = [Stdout ''[1/1] a.mp4''], conversion_failures = 0, thumbnail_failures = 0\<rparr>"
  have 1: "do_thumbnails ?a"
    by (simp add: do_thumbnails_def)
  have 2: "relative_to [''videos'', ''a.mp4''] (res_input_dir ?r) = Inr [''a.mp4'']"
    by simp
  have 3: "?s2 = before_thumbnails (example_env ''0.0'') example_lib ?a ?r 1 1
                   [''videos'', ''a.mp4''] [''a.mp4''] ?s"
    by code_simp
  have 4: "probed_duration example_lib
         (subprocess_run (example_env ''0.0'') (trace ?s2)
            (ffprobe_command [''videos'', ''a.mp4''])) = Some (Finite 0)"
    by code_simp
  have 5: "Some (Finite 0) = None \<or> (\<exists>d. Some (Finite 0) = Some d \<and> float_le d (Finite 0))"
    by simp
  have 6: "duration_failure [''videos'', ''a.mp4''] ?s2
       = \<lparr>trace = [Stdout ''[1/1] a.mp4'',
                   Subprocess (ffprobe_command [''videos'', ''a.mp4'']),
                   Stderr ''  thumbnail failed (could not read duration)''],
          conversion_failures = 0, thumbnail_failures = 1\<rparr>"
    by (simp add: duration_failure_def emit_def)
  from nonpositive_duration_counts_once
    [OF 1 2 3 4 5, of "[''videos'', ''converted'', ''thumbnails'']" "[]"]
  have "process_sources (example_env ''0.0'') example_lib ?a ?r
         [''videos'', ''converted'', ''thumbnails''] 1 1 [[''videos'', ''a.mp4'']] ?s
       = Inr (duration_failure [''videos'', ''a.mp4''] ?s2)"
    by simp
  with 1 2 4 6 show ?thesis
    by simp
qed

subsection \<open>Failures and the exit code\<close>




























end
